theory Spec2Isabelle
  imports Main "HOL-Library.Word"
begin

unbundle bit_operations_syntax

section \<open>Values of the host language\<close>

text \<open>
  The module under study is \<^verbatim>\<open>src/utils/password.ts\<close> (the second document of
  \<^verbatim>\<open>src/src/utils/database.ts\<close>): \<^verbatim>\<open>generateSalt\<close>, \<^verbatim>\<open>hashPassword\<close>,
  \<^verbatim>\<open>createPasswordHash\<close>, \<^verbatim>\<open>verifyPassword\<close> and \<^verbatim>\<open>constantTimeCompare\<close>.

  A JavaScript string is a sequence of 16-bit code units; a \<^verbatim>\<open>Uint8Array\<close> is a sequence
  of bytes. A JavaScript number that reaches this module is either \<^verbatim>\<open>NaN\<close> or an integer
  (\<^verbatim>\<open>parseInt\<close> yields nothing else, and the literal \<^verbatim>\<open>100000\<close> is one). The model keeps
  the mathematical integer: the only consumer of the number is the range check of the
  key-derivation parameters, which rounding to a double cannot change.
\<close>

type_synonym byte = "8 word"
type_synonym code_unit = "16 word"
type_synonym jsstring = "code_unit list"

datatype number = NaN | Num int

datatype error = TypeError | OperationError | QuotaExceededError

text \<open>String literals of the source, written with Isabelle's one-byte characters.\<close>

definition js :: "string \<Rightarrow> jsstring" where
  "js s = map of_char s"

definition DOLLAR :: code_unit where
  "DOLLAR = 0x24"

section \<open>Platform functions the module calls\<close>

subsection \<open>SHA-256 (FIPS 180-4), the hash inside \<^verbatim>\<open>crypto.subtle.deriveBits\<close>\<close>

type_synonym w32 = "32 word"
type_synonym sha_state = "w32 \<times> w32 \<times> w32 \<times> w32 \<times> w32 \<times> w32 \<times> w32 \<times> w32"

definition rotr :: "nat \<Rightarrow> w32 \<Rightarrow> w32" where
  "rotr n x = word_rotr n x"

definition Ch :: "w32 \<Rightarrow> w32 \<Rightarrow> w32 \<Rightarrow> w32" where
  "Ch x y z = (x AND y) XOR (NOT x AND z)"

definition Maj :: "w32 \<Rightarrow> w32 \<Rightarrow> w32 \<Rightarrow> w32" where
  "Maj x y z = (x AND y) XOR (x AND z) XOR (y AND z)"

definition bsig0 :: "w32 \<Rightarrow> w32" where
  "bsig0 x = rotr 2 x XOR rotr 13 x XOR rotr 22 x"

definition bsig1 :: "w32 \<Rightarrow> w32" where
  "bsig1 x = rotr 6 x XOR rotr 11 x XOR rotr 25 x"

definition ssig0 :: "w32 \<Rightarrow> w32" where
  "ssig0 x = rotr 7 x XOR rotr 18 x XOR drop_bit 3 x"

definition ssig1 :: "w32 \<Rightarrow> w32" where
  "ssig1 x = rotr 17 x XOR rotr 19 x XOR drop_bit 10 x"

definition sha_K :: "w32 list" where
  "sha_K =
   [0x428A2F98, 0x71374491, 0xB5C0FBCF, 0xE9B5DBA5] @ [0x3956C25B, 0x59F111F1, 0x923F82A4, 0xAB1C5ED5] @
   [0xD807AA98, 0x12835B01, 0x243185BE, 0x550C7DC3] @ [0x72BE5D74, 0x80DEB1FE, 0x9BDC06A7, 0xC19BF174] @
   [0xE49B69C1, 0xEFBE4786, 0x0FC19DC6, 0x240CA1CC] @ [0x2DE92C6F, 0x4A7484AA, 0x5CB0A9DC, 0x76F988DA] @
   [0x983E5152, 0xA831C66D, 0xB00327C8, 0xBF597FC7] @ [0xC6E00BF3, 0xD5A79147, 0x06CA6351, 0x14292967] @
   [0x27B70A85, 0x2E1B2138, 0x4D2C6DFC, 0x53380D13] @ [0x650A7354, 0x766A0ABB, 0x81C2C92E, 0x92722C85] @
   [0xA2BFE8A1, 0xA81A664B, 0xC24B8B70, 0xC76C51A3] @ [0xD192E819, 0xD6990624, 0xF40E3585, 0x106AA070] @
   [0x19A4C116, 0x1E376C08, 0x2748774C, 0x34B0BCB5] @ [0x391C0CB3, 0x4ED8AA4A, 0x5B9CCA4F, 0x682E6FF3] @
   [0x748F82EE, 0x78A5636F, 0x84C87814, 0x8CC70208] @ [0x90BEFFFA, 0xA4506CEB, 0xBEF9A3F7, 0xC67178F2]"

definition sha_H0 :: sha_state where
  "sha_H0 = (0x6A09E667, 0xBB67AE85, 0x3C6EF372, 0xA54FF53A,
             0x510E527F, 0x9B05688C, 0x1F83D9AB, 0x5BE0CD19)"

text \<open>Big-endian conversions between bytes and words.\<close>

definition be32 :: "w32 \<Rightarrow> byte list" where
  "be32 w = [ucast (drop_bit 24 w), ucast (drop_bit 16 w), ucast (drop_bit 8 w), ucast w]"

definition be64 :: "nat \<Rightarrow> byte list" where
  "be64 n = map (\<lambda>i. of_nat (n div 256 ^ (7 - i))) [0..<8]"

definition word_of_be :: "byte list \<Rightarrow> w32" where
  "word_of_be bs = foldl (\<lambda>acc b. push_bit 8 acc OR ucast b) 0 bs"

text \<open>Padding: a one bit, zeros up to 56 modulo 64 bytes, the bit length in 64 bits.\<close>

definition sha_pad :: "byte list \<Rightarrow> byte list" where
  "sha_pad m = m @ [0x80] @ replicate ((119 - length m mod 64) mod 64) 0
                 @ be64 ((8 * length m) mod 2 ^ 64)"

text \<open>The message schedule: sixteen words of the block, extended to sixty-four.\<close>

fun sha_extend :: "nat \<Rightarrow> w32 list \<Rightarrow> w32 list" where
  "sha_extend 0 w = w"
| "sha_extend (Suc n) w =
     sha_extend n (w @ [ssig1 (w ! (length w - 2)) + w ! (length w - 7)
                        + ssig0 (w ! (length w - 15)) + w ! (length w - 16)])"

definition sha_schedule :: "byte list \<Rightarrow> w32 list" where
  "sha_schedule block =
     sha_extend 48 (map (\<lambda>i. word_of_be (take 4 (drop (4 * i) block))) [0..<16])"

fun sha_round :: "sha_state \<Rightarrow> w32 \<times> w32 \<Rightarrow> sha_state" where
  "sha_round (a, b, c, d, e, f, g, h) (k, w) =
     (let t1 = h + bsig1 e + Ch e f g + k + w;
          t2 = bsig0 a + Maj a b c
      in (t1 + t2, a, b, c, d + t1, e, f, g))"

fun sha_add :: "sha_state \<Rightarrow> sha_state \<Rightarrow> sha_state" where
  "sha_add (a, b, c, d, e, f, g, h) (a', b', c', d', e', f', g', h') =
     (a + a', b + b', c + c', d + d', e + e', f + f', g + g', h + h')"

definition sha_compress :: "sha_state \<Rightarrow> byte list \<Rightarrow> sha_state" where
  "sha_compress st block = sha_add st (foldl sha_round st (zip sha_K (sha_schedule block)))"

fun sha_output :: "sha_state \<Rightarrow> byte list" where
  "sha_output (a, b, c, d, e, f, g, h) =
     be32 a @ be32 b @ be32 c @ be32 d @ be32 e @ be32 f @ be32 g @ be32 h"

definition sha256 :: "byte list \<Rightarrow> byte list" where
  "sha256 m =
     (let p = sha_pad m
      in sha_output (foldl (\<lambda>st i. sha_compress st (take 64 (drop (64 * i) p)))
                           sha_H0 [0..<length p div 64]))"

subsection \<open>HMAC (RFC 2104) and PBKDF2 (RFC 8018) over SHA-256\<close>

text \<open>
  A key longer than the 64-byte block is hashed first; the key is then filled with zero
  bytes up to the block.
\<close>

definition hmac_key :: "byte list \<Rightarrow> byte list" where
  "hmac_key k =
     (let k' = (if length k > 64 then sha256 k else k)
      in k' @ replicate (64 - length k') 0)"

definition hmac_sha256 :: "byte list \<Rightarrow> byte list \<Rightarrow> byte list" where
  "hmac_sha256 k m =
     sha256 (map (\<lambda>b. b XOR 0x5C) (hmac_key k)
             @ sha256 (map (\<lambda>b. b XOR 0x36) (hmac_key k) @ m))"

definition xor_bytes :: "byte list \<Rightarrow> byte list \<Rightarrow> byte list" where
  "xor_bytes xs ys = map (\<lambda>(x, y). x XOR y) (zip xs ys)"

text \<open>\<open>pbkdf2_iter P n u acc\<close>: \<open>n\<close> further rounds after the round that produced \<open>u\<close>.\<close>

fun pbkdf2_iter :: "byte list \<Rightarrow> nat \<Rightarrow> byte list \<Rightarrow> byte list \<Rightarrow> byte list" where
  "pbkdf2_iter P 0 u acc = acc"
| "pbkdf2_iter P (Suc n) u acc =
     (let u' = hmac_sha256 P u in pbkdf2_iter P n u' (xor_bytes acc u'))"

definition pbkdf2_F :: "byte list \<Rightarrow> byte list \<Rightarrow> nat \<Rightarrow> nat \<Rightarrow> byte list" where
  "pbkdf2_F P S c i =
     (let u1 = hmac_sha256 P (S @ be32 (of_nat i)) in pbkdf2_iter P (c - 1) u1 u1)"

definition pbkdf2 :: "byte list \<Rightarrow> byte list \<Rightarrow> nat \<Rightarrow> nat \<Rightarrow> byte list" where
  "pbkdf2 P S c dkLen =
     take dkLen (concat (map (pbkdf2_F P S c) [1..<Suc ((dkLen + 31) div 32)]))"

text \<open>
  Evaluated by the code generator, these definitions give the digests of the published
  test vectors: SHA-256 of the empty message, of \<^verbatim>\<open>abc\<close> and of the 56-byte message of
  FIPS 180-4, HMAC-SHA-256 with a key of 131 bytes (RFC 4231, test case 6), and PBKDF2 of
  \<^verbatim>\<open>password\<close> and \<^verbatim>\<open>salt\<close> with one and with two iterations and 32 or 40 bytes.
\<close>

subsection \<open>\<^verbatim>\<open>crypto.subtle\<close>: importing a raw key and deriving bits\<close>

text \<open>
  \<^verbatim>\<open>importKey('raw', data, {name: 'PBKDF2'}, false, ['deriveBits'])\<close> accepts every byte
  sequence, the empty one included; the key is the data.
\<close>

definition importKey :: "byte list \<Rightarrow> error + byte list" where
  "importKey keyData = Inr keyData"

text \<open>
  \<^verbatim>\<open>deriveBits({name: 'PBKDF2', salt, iterations, hash: 'SHA-256'}, key, length)\<close>.
  The member \<^verbatim>\<open>iterations\<close> is an \<^verbatim>\<open>[EnforceRange] unsigned long\<close>: \<^verbatim>\<open>NaN\<close> and every
  value outside \<open>0 .. 2^32 - 1\<close> is a \<^verbatim>\<open>TypeError\<close>. A length that is not a multiple of
  8 and an iteration count of zero are an \<^verbatim>\<open>OperationError\<close>.
\<close>

definition deriveBits :: "byte list \<Rightarrow> number \<Rightarrow> byte list \<Rightarrow> nat \<Rightarrow> error + byte list" where
  "deriveBits salt iterations key len =
     (case iterations of
        NaN \<Rightarrow> Inl TypeError
      | Num n \<Rightarrow>
          if n < 0 \<or> 4294967295 < n then Inl TypeError
          else if len mod 8 \<noteq> 0 then Inl OperationError
          else if n = 0 then Inl OperationError
          else Inr (pbkdf2 key salt (nat n) (len div 8)))"

subsection \<open>\<^verbatim>\<open>crypto.getRandomValues\<close>\<close>

text \<open>
  The random source is an endless tape of bytes; a call reads the next \<open>n\<close> bytes and
  leaves the rest. More than 65536 bytes in one call is a \<^verbatim>\<open>QuotaExceededError\<close>.
\<close>

type_synonym rng = "nat \<Rightarrow> byte"

definition getRandomValues :: "nat \<Rightarrow> rng \<Rightarrow> (error + byte list) \<times> rng" where
  "getRandomValues n g =
     (if 65536 < n then (Inl QuotaExceededError, g)
      else (Inr (map g [0..<n]), (\<lambda>i. g (i + n))))"

subsection \<open>\<^verbatim>\<open>TextEncoder.encode\<close>: UTF-8 of a string of UTF-16 code units\<close>

text \<open>
  A surrogate pair is one code point of four bytes; a surrogate without its partner is
  replaced by U+FFFD, the bytes EF BF BD.
\<close>

definition utf8_1 :: "code_unit \<Rightarrow> byte list" where
  "utf8_1 c = [ucast c]"

definition utf8_2 :: "code_unit \<Rightarrow> byte list" where
  "utf8_2 c = [0xC0 OR ucast (drop_bit 6 c), 0x80 OR ucast (c AND 0x3F)]"

definition utf8_3 :: "code_unit \<Rightarrow> byte list" where
  "utf8_3 c = [0xE0 OR ucast (drop_bit 12 c), 0x80 OR ucast (drop_bit 6 c AND 0x3F),
               0x80 OR ucast (c AND 0x3F)]"

definition utf8_4 :: "code_unit \<Rightarrow> code_unit \<Rightarrow> byte list" where
  "utf8_4 hi lo =
     (let cp = (0x10000 :: 32 word) + push_bit 10 (ucast (hi - 0xD800)) + ucast (lo - 0xDC00)
      in [0xF0 OR ucast (drop_bit 18 cp), 0x80 OR ucast (drop_bit 12 cp AND 0x3F),
          0x80 OR ucast (drop_bit 6 cp AND 0x3F), 0x80 OR ucast (cp AND 0x3F)])"

definition is_high_surrogate :: "code_unit \<Rightarrow> bool" where
  "is_high_surrogate c = (0xD800 \<le> c \<and> c < 0xDC00)"

definition is_low_surrogate :: "code_unit \<Rightarrow> bool" where
  "is_low_surrogate c = (0xDC00 \<le> c \<and> c < 0xE000)"

definition replacement :: "byte list" where
  "replacement = [0xEF, 0xBF, 0xBD]"

fun encode :: "jsstring \<Rightarrow> byte list" where
  "encode [] = []"
| "encode [c] =
     (if c < 0x80 then utf8_1 c
      else if c < 0x800 then utf8_2 c
      else if is_high_surrogate c \<or> is_low_surrogate c then replacement
      else utf8_3 c)"
| "encode (c # d # ds) =
     (if c < 0x80 then utf8_1 c @ encode (d # ds)
      else if c < 0x800 then utf8_2 c @ encode (d # ds)
      else if is_high_surrogate c then
        (if is_low_surrogate d then utf8_4 c d @ encode ds
         else replacement @ encode (d # ds))
      else if is_low_surrogate c then replacement @ encode (d # ds)
      else utf8_3 c @ encode (d # ds))"

subsection \<open>String and number methods\<close>

text \<open>\<^verbatim>\<open>byte.toString(16)\<close> for a byte: one or two lowercase hexadecimal digits.\<close>

definition hex_digit :: "nat \<Rightarrow> code_unit" where
  "hex_digit d = js ''0123456789abcdef'' ! d"

definition toString16 :: "byte \<Rightarrow> jsstring" where
  "toString16 b =
     (if unat b < 16 then [hex_digit (unat b)]
      else [hex_digit (unat b div 16), hex_digit (unat b mod 16)])"

text \<open>\<^verbatim>\<open>s.padStart(n, c)\<close> with a one-character filler.\<close>

definition padStart :: "nat \<Rightarrow> code_unit \<Rightarrow> jsstring \<Rightarrow> jsstring" where
  "padStart n c s = replicate (n - length s) c @ s"

text \<open>\<^verbatim>\<open>parts.join('')\<close>.\<close>

definition join :: "jsstring list \<Rightarrow> jsstring" where
  "join parts = concat parts"

text \<open>
  The decimal numeral of a non-negative integer, as a template literal prints it
  (integers below \<open>10^21\<close>; the source prints \<open>100000\<close>).
\<close>

fun decimal :: "nat \<Rightarrow> jsstring" where
  "decimal n =
     (if n < 10 then [0x30 + of_nat n]
      else decimal (n div 10) @ [0x30 + of_nat (n mod 10)])"

declare decimal.simps [simp del]

text \<open>
  \<^verbatim>\<open>s.split(sep)\<close> for a one-character separator: the pieces between the separators,
  at least one piece, empty pieces kept.
\<close>

fun split_from :: "code_unit \<Rightarrow> jsstring \<Rightarrow> jsstring \<Rightarrow> jsstring list" where
  "split_from sep piece [] = [piece]"
| "split_from sep piece (c # cs) =
     (if c = sep then piece # split_from sep [] cs
      else split_from sep (piece @ [c]) cs)"

definition split :: "code_unit \<Rightarrow> jsstring \<Rightarrow> jsstring list" where
  "split sep s = split_from sep [] s"

text \<open>
  \<^verbatim>\<open>parseInt(s)\<close> without a radix: leading white space is skipped, a sign is read, a
  prefix \<^verbatim>\<open>0x\<close> or \<^verbatim>\<open>0X\<close> selects radix 16, and the longest run of digits is the value;
  what follows the digits is ignored. No digit at all gives \<^verbatim>\<open>NaN\<close>.
\<close>

definition is_white :: "code_unit \<Rightarrow> bool" where
  "is_white c =
     (c \<in> set [0x9, 0xA, 0xB, 0xC, 0xD, 0x20, 0xA0, 0x1680, 0x2028, 0x2029, 0x202F,
               0x205F, 0x3000, 0xFEFF]
      \<or> (0x2000 \<le> c \<and> c \<le> 0x200A))"

definition digit_val :: "nat \<Rightarrow> code_unit \<Rightarrow> nat option" where
  "digit_val R c =
     (let v = (if 0x30 \<le> c \<and> c \<le> 0x39 then Some (unat c - 0x30)
               else if 0x61 \<le> c \<and> c \<le> 0x7A then Some (unat c - 0x61 + 10)
               else if 0x41 \<le> c \<and> c \<le> 0x5A then Some (unat c - 0x41 + 10)
               else None)
      in case v of None \<Rightarrow> None | Some d \<Rightarrow> if d < R then Some d else None)"

definition is_digit :: "nat \<Rightarrow> code_unit \<Rightarrow> bool" where
  "is_digit R c = (case digit_val R c of None \<Rightarrow> False | Some d \<Rightarrow> True)"

definition digits_value :: "nat \<Rightarrow> jsstring \<Rightarrow> nat" where
  "digits_value R z =
     foldl (\<lambda>acc c. acc * R + (case digit_val R c of None \<Rightarrow> 0 | Some d \<Rightarrow> d)) 0 z"

definition parseInt :: "jsstring \<Rightarrow> number" where
  "parseInt str =
     (let s = dropWhile is_white str;
          sign = (case s of [] \<Rightarrow> 1 | c # _ \<Rightarrow> if c = 0x2D then - 1 else (1 :: int));
          s1 = (case s of [] \<Rightarrow> [] | c # cs \<Rightarrow> if c = 0x2B \<or> c = 0x2D then cs else s);
          hex = (take 2 s1 = js ''0x'' \<or> take 2 s1 = js ''0X'');
          R = (if hex then 16 else 10);
          s2 = (if hex then drop 2 s1 else s1);
          z = takeWhile (is_digit R) s2
      in if z = [] then NaN else Num (sign * int (digits_value R z)))"

section \<open>The password module\<close>

text \<open>
  \<^verbatim>\<open>generateSalt(length = 16)\<close>: \<open>length\<close> random bytes, each printed as two lowercase
  hexadecimal digits.
\<close>

definition generateSalt :: "nat \<Rightarrow> rng \<Rightarrow> (error + jsstring) \<times> rng" where
  "generateSalt len g =
     (case getRandomValues len g of
        (Inl e, g') \<Rightarrow> (Inl e, g')
      | (Inr array, g') \<Rightarrow>
          (Inr (join (map (\<lambda>byte. padStart 2 0x30 (toString16 byte)) array)), g'))"

text \<open>
  \<^verbatim>\<open>hashPassword(password, salt, iterations)\<close>: both strings are encoded as UTF-8, the
  password is imported as the key, 256 bits are derived and printed in hexadecimal. A
  rejected promise of the platform is the \<open>Inl\<close> result.
\<close>

definition hashPassword :: "jsstring \<Rightarrow> jsstring \<Rightarrow> number \<Rightarrow> error + jsstring" where
  "hashPassword password salt iterations =
     (let passwordData = encode password;
          saltData = encode salt
      in case importKey passwordData of
           Inl e \<Rightarrow> Inl e
         | Inr importedKey \<Rightarrow>
             (case deriveBits saltData iterations importedKey 256 of
                Inl e \<Rightarrow> Inl e
              | Inr derivedBits \<Rightarrow>
                  Inr (join (map (\<lambda>b. padStart 2 0x30 (toString16 b)) derivedBits))))"

text \<open>
  \<^verbatim>\<open>createPasswordHash(password)\<close>: a fresh salt of 16 bytes, 100000 iterations, and the
  record \<^verbatim>\<open>$pbkdf2$<iterations>$<salt>$<hash>\<close>.
\<close>

definition createPasswordHash :: "jsstring \<Rightarrow> rng \<Rightarrow> (error + jsstring) \<times> rng" where
  "createPasswordHash password g =
     (case generateSalt 16 g of
        (Inl e, g') \<Rightarrow> (Inl e, g')
      | (Inr salt, g') \<Rightarrow>
          (let iterations = 100000
           in case hashPassword password salt (Num (int iterations)) of
                Inl e \<Rightarrow> (Inl e, g')
              | Inr hash \<Rightarrow>
                  (Inr (js ''$pbkdf2$'' @ decimal iterations @ js ''$'' @ salt
                        @ js ''$'' @ hash), g')))"

text \<open>
  \<^verbatim>\<open>constantTimeCompare(a, b)\<close>: unequal lengths are unequal strings; otherwise the
  exclusive-or of every pair of code units is accumulated with a bitwise or, in 32-bit
  integers, and the strings are equal when the accumulator is still zero.
\<close>

function constantTimeCompare_loop :: "jsstring \<Rightarrow> jsstring \<Rightarrow> nat \<Rightarrow> 32 word \<Rightarrow> 32 word" where
  "constantTimeCompare_loop a b i result =
     (if i < length a
      then constantTimeCompare_loop a b (Suc i) (result OR (ucast (a ! i) XOR ucast (b ! i)))
      else result)"
  by pat_completeness auto
termination
  by (relation "measure (\<lambda>(a, b, i, result). length a - i)") auto

declare constantTimeCompare_loop.simps [simp del]

definition constantTimeCompare :: "jsstring \<Rightarrow> jsstring \<Rightarrow> bool" where
  "constantTimeCompare a b =
     (if length a \<noteq> length b then False
      else constantTimeCompare_loop a b 0 0 = 0)"

text \<open>
  \<^verbatim>\<open>verifyPassword(password, hashedPassword)\<close>. \<open>verifyPassword_try\<close> is the body of the
  \<^verbatim>\<open>try\<close> block, \<open>Inl\<close> being an exception raised inside it; \<open>verifyPassword\<close> adds the
  \<^verbatim>\<open>catch\<close>, which turns every exception into \<^verbatim>\<open>false\<close>.
\<close>

definition verifyPassword_try :: "jsstring \<Rightarrow> jsstring \<Rightarrow> error + bool" where
  "verifyPassword_try password hashedPassword =
     (let parts = split DOLLAR hashedPassword
      in if length parts \<noteq> 5 then Inr False
         else if parts ! 1 \<noteq> js ''pbkdf2'' then Inr False
         else
           (let iterations = parseInt (parts ! 2);
                salt = parts ! 3;
                storedHash = parts ! 4
            in case hashPassword password salt iterations of
                 Inl e \<Rightarrow> Inl e
               | Inr computedHash \<Rightarrow> Inr (constantTimeCompare computedHash storedHash)))"

definition verifyPassword :: "jsstring \<Rightarrow> jsstring \<Rightarrow> bool" where
  "verifyPassword password hashedPassword =
     (case verifyPassword_try password hashedPassword of
        Inl e \<Rightarrow> False
      | Inr matched \<Rightarrow> matched)"

text \<open>Two random sources for concrete runs: all bytes zero, and the bytes 0, 1, 2, ...\<close>

definition zero_rng :: rng where
  "zero_rng = (\<lambda>i. 0)"

definition count_rng :: rng where
  "count_rng = (\<lambda>i. of_nat i)"

section \<open>Vocabulary of the statements\<close>

text \<open>The sixteen lowercase hexadecimal digits.\<close>

definition is_lower_hex :: "code_unit \<Rightarrow> bool" where
  "is_lower_hex c = (c \<in> set (js ''0123456789abcdef''))"

text \<open>
  The printing of a byte array that \<open>generateSalt\<close> and \<open>hashPassword\<close> both end with,
  and the digest \<open>hashPassword\<close> returns when the platform accepts the iteration count
  (lemma \<open>hashPassword_cases\<close> below).
\<close>

definition hex_of_bytes :: "byte list \<Rightarrow> jsstring" where
  "hex_of_bytes bs = join (map (\<lambda>b. padStart 2 0x30 (toString16 b)) bs)"

definition digest :: "jsstring \<Rightarrow> jsstring \<Rightarrow> nat \<Rightarrow> jsstring" where
  "digest P S n = hex_of_bytes (pbkdf2 (encode P) (encode S) n 32)"

text \<open>Decimal digits, and strings made of them only.\<close>

definition dec_digit :: "nat \<Rightarrow> code_unit" where
  "dec_digit d = 0x30 + of_nat d"

definition is_dec :: "code_unit \<Rightarrow> bool" where
  "is_dec c = (\<exists>d<10. c = dec_digit d)"

definition dec_string :: "jsstring \<Rightarrow> bool" where
  "dec_string s = (s \<noteq> [] \<and> list_all is_dec s)"

text \<open>
  A valid integer in the sense of the record format (a base-10 integer): a non-empty
  string of the characters \<^verbatim>\<open>0\<close> to \<^verbatim>\<open>9\<close>.
\<close>

definition decimal_numeral :: "jsstring \<Rightarrow> bool" where
  "decimal_numeral s = (s \<noteq> [] \<and> list_all (\<lambda>c. 0x30 \<le> c \<and> c \<le> 0x39) s)"

section \<open>Facts about the platform functions\<close>

subsection \<open>String literals\<close>

lemma js_lits:
  "js ''$pbkdf2$'' = [0x24, 0x70, 0x62, 0x6B, 0x64, 0x66, 0x32, 0x24]"
  "js ''$'' = [DOLLAR]"
  "js ''pbkdf2'' = [0x70, 0x62, 0x6B, 0x64, 0x66, 0x32]"
  "js ''0x'' = [0x30, 0x78]"
  "js ''0X'' = [0x30, 0x58]"
  by (simp_all add: js_def DOLLAR_def)

lemma pbkdf2_tag_no_dollar: "DOLLAR \<notin> set (js ''pbkdf2'')"
  by (simp add: js_lits DOLLAR_def)

subsection \<open>The comparison loop\<close>

lemma ucast_16_32_inj:
  "(ucast (x :: 16 word) :: 32 word) = ucast (y :: 16 word) \<Longrightarrow> x = y"
proof -
  assume a: "(ucast x :: 32 word) = ucast y"
  have "uint (ucast x :: 32 word) = uint x" "uint (ucast y :: 32 word) = uint y"
    by (simp_all add: uint_up_ucast is_up)
  with a have "uint x = uint y" by simp
  then show "x = y" by (rule word_uint_eqI)
qed

lemma word_xor_zero_eq: "(a :: 32 word) XOR b = 0 \<longleftrightarrow> a = b"
proof
  assume "a XOR b = 0"
  then have "(a XOR b) XOR b = b" by simp
  then show "a = b" by (simp add: xor.assoc)
qed simp

lemma code_unit_xor_zero:
  "((ucast (x :: 16 word) :: 32 word) XOR ucast (y :: 16 word)) = 0 \<longleftrightarrow> x = y"
  using ucast_16_32_inj word_xor_zero_eq by auto

text \<open>
  The accumulator is zero at the end exactly when it was zero at index \<open>i\<close> and the
  two strings agree from \<open>i\<close> on.
\<close>

lemma constantTimeCompare_loop_zero:
  "i \<le> length a \<Longrightarrow> length a = length b \<Longrightarrow>
   (constantTimeCompare_loop a b i r = 0) = (r = 0 \<and> drop i a = drop i b)"
proof (induction a b i r rule: constantTimeCompare_loop.induct)
  case (1 a b i r)
  show ?case
  proof (cases "i < length a")
    case True
    have d: "drop i a = a ! i # drop (Suc i) a" "drop i b = b ! i # drop (Suc i) b"
      using True 1(3) by (simp_all add: Cons_nth_drop_Suc)
    show ?thesis
      using 1 True
      by (subst constantTimeCompare_loop.simps) (simp add: d code_unit_xor_zero or_eq_0_iff)
  next
    case False
    then show ?thesis using 1 by (subst constantTimeCompare_loop.simps) simp
  qed
qed

lemma constantTimeCompare_eq: "constantTimeCompare a b = (a = b)"
  by (auto simp: constantTimeCompare_def constantTimeCompare_loop_zero)

subsection \<open>Lengths of the hash outputs\<close>

lemma length_sha_output: "length (sha_output st) = 32"
  by (cases st) (auto simp: be32_def)

lemma length_sha256: "length (sha256 m) = 32"
  by (simp add: sha256_def Let_def length_sha_output)

lemma length_hmac: "length (hmac_sha256 k m) = 32"
  by (simp add: hmac_sha256_def length_sha256)

lemma length_xor_bytes: "length (xor_bytes a b) = min (length a) (length b)"
  by (simp add: xor_bytes_def)

lemma length_pbkdf2_iter: "length acc = 32 \<Longrightarrow> length (pbkdf2_iter P n u acc) = 32"
  by (induction n arbitrary: u acc) (simp_all add: Let_def length_xor_bytes length_hmac)

lemma length_pbkdf2_F: "length (pbkdf2_F P S c i) = 32"
  by (simp add: pbkdf2_F_def Let_def length_pbkdf2_iter length_hmac)

lemma pbkdf2_32: "pbkdf2 P S c 32 = pbkdf2_F P S c 1"
  by (simp add: pbkdf2_def length_pbkdf2_F)

lemma length_pbkdf2_32: "length (pbkdf2 P S c 32) = 32"
  by (simp add: pbkdf2_32 length_pbkdf2_F)

subsection \<open>A key and the same key followed by a zero byte\<close>

text \<open>
  HMAC fills a short key with zero bytes, so a key of fewer than 64 bytes and the same
  key with one more zero byte are the same HMAC key, and derive the same bits.
\<close>

lemma hmac_key_snoc_zero: "length k < 64 \<Longrightarrow> hmac_key (k @ [0]) = hmac_key k"
proof -
  assume a: "length k < 64"
  then have "64 - length k = Suc (63 - length k)" by simp
  then have "replicate (64 - length k) (0 :: byte) = 0 # replicate (63 - length k) 0"
    by (simp only: replicate_Suc)
  with a show ?thesis by (simp add: hmac_key_def)
qed

lemma hmac_snoc_zero: "length k < 64 \<Longrightarrow> hmac_sha256 (k @ [0]) m = hmac_sha256 k m"
  by (simp add: hmac_sha256_def hmac_key_snoc_zero)

lemma pbkdf2_iter_snoc_zero:
  "length k < 64 \<Longrightarrow> pbkdf2_iter (k @ [0]) n u acc = pbkdf2_iter k n u acc"
  by (induction n arbitrary: u acc) (simp_all add: hmac_snoc_zero)

lemma pbkdf2_F_snoc_zero: "length k < 64 \<Longrightarrow> pbkdf2_F (k @ [0]) S c = pbkdf2_F k S c"
  by (rule ext) (simp add: pbkdf2_F_def hmac_snoc_zero pbkdf2_iter_snoc_zero)

lemma pbkdf2_snoc_zero: "length k < 64 \<Longrightarrow> pbkdf2 (k @ [0]) S c l = pbkdf2 k S c l"
  by (simp only: pbkdf2_def pbkdf2_F_snoc_zero)

subsection \<open>Hexadecimal printing\<close>

lemma hex_digit_all:
  "\<forall>d \<in> {..<16}. digit_val 16 (hex_digit d) = Some d \<and> is_lower_hex (hex_digit d)
      \<and> hex_digit d \<noteq> DOLLAR"
  by (simp add: lessThan_nat_numeral lessThan_Suc hex_digit_def js_def digit_val_def
      is_lower_hex_def DOLLAR_def)

lemma hex_digit_props:
  assumes "d < 16"
  shows "digit_val 16 (hex_digit d) = Some d" "is_lower_hex (hex_digit d)"
    "hex_digit d \<noteq> DOLLAR"
  using hex_digit_all assms by auto

lemma hex_digit_inj: "d < 16 \<Longrightarrow> e < 16 \<Longrightarrow> hex_digit d = hex_digit e \<Longrightarrow> d = e"
  by (metis hex_digit_props(1) option.inject)

lemma hex_digit_0: "hex_digit 0 = 0x30"
  by (simp add: hex_digit_def js_def)

lemma hex2:
  "padStart 2 0x30 (toString16 b) = [hex_digit (unat b div 16), hex_digit (unat b mod 16)]"
  by (simp add: padStart_def toString16_def hex_digit_0)

lemma hex_of_bytes_Nil: "hex_of_bytes [] = []"
  by (simp add: hex_of_bytes_def join_def)

lemma hex_of_bytes_Cons:
  "hex_of_bytes (b # bs)
   = hex_digit (unat b div 16) # hex_digit (unat b mod 16) # hex_of_bytes bs"
  by (simp add: hex_of_bytes_def join_def hex2)

lemma unat_byte_div16: "unat (b :: byte) div 16 < 16"
proof -
  have "unat b < 2 ^ LENGTH(8)" by (rule unsigned_less)
  then show ?thesis by simp
qed

lemma length_hex_of_bytes: "length (hex_of_bytes bs) = 2 * length bs"
  by (induction bs) (simp_all add: hex_of_bytes_Nil hex_of_bytes_Cons)


lemma hex_of_bytes_no_dollar: "DOLLAR \<notin> set (hex_of_bytes bs)"
proof (induction bs)
  case Nil
  show ?case by (simp add: hex_of_bytes_Nil)
next
  case (Cons b bs)
  have "hex_digit (unat b div 16) \<noteq> DOLLAR" "hex_digit (unat b mod 16) \<noteq> DOLLAR"
    by (simp_all add: hex_digit_props(3) unat_byte_div16)
  with Cons show ?case by (auto simp: hex_of_bytes_Cons)
qed

lemma hex_of_bytes_inj: "hex_of_bytes a = hex_of_bytes b \<Longrightarrow> a = b"
proof (induction a arbitrary: b)
  case Nil
  then show ?case by (cases b) (simp_all add: hex_of_bytes_Nil hex_of_bytes_Cons)
next
  case (Cons x xs)
  then obtain y ys where b: "b = y # ys"
    by (cases b) (simp_all add: hex_of_bytes_Nil hex_of_bytes_Cons)
  from Cons.prems b have h: "hex_digit (unat x div 16) = hex_digit (unat y div 16)"
    "hex_digit (unat x mod 16) = hex_digit (unat y mod 16)" "hex_of_bytes xs = hex_of_bytes ys"
    by (simp_all add: hex_of_bytes_Cons)
  have "unat x div 16 = unat y div 16" "unat x mod 16 = unat y mod 16"
    using h(1,2) by (auto intro: hex_digit_inj simp: unat_byte_div16)
  then have "unat x = unat y" by (metis div_mult_mod_eq)
  then have "x = y" by (simp add: word_unat_eq_iff)
  with Cons.IH [OF h(3)] b show ?case by simp
qed

subsection \<open>Decimal numerals and \<open>parseInt\<close>\<close>

lemma dec_digit_all:
  "\<forall>d \<in> {..<10}. digit_val 10 (dec_digit d) = Some d \<and> \<not> is_white (dec_digit d)
      \<and> dec_digit d \<noteq> 0x2B \<and> dec_digit d \<noteq> 0x2D \<and> dec_digit d \<noteq> 0x78
      \<and> dec_digit d \<noteq> 0x58 \<and> dec_digit d \<noteq> DOLLAR"
  by (simp add: lessThan_nat_numeral lessThan_Suc dec_digit_def digit_val_def is_white_def
      DOLLAR_def)

lemma dec_digit_props:
  assumes "d < 10"
  shows "digit_val 10 (dec_digit d) = Some d" "\<not> is_white (dec_digit d)"
    "dec_digit d \<noteq> 0x2B" "dec_digit d \<noteq> 0x2D" "dec_digit d \<noteq> 0x78"
    "dec_digit d \<noteq> 0x58" "dec_digit d \<noteq> DOLLAR"
  using dec_digit_all assms by auto

lemma is_decI: "d < 10 \<Longrightarrow> is_dec (dec_digit d)"
  by (auto simp: is_dec_def)

lemma is_dec_props:
  assumes "is_dec c"
  shows "is_digit 10 c" "\<not> is_white c" "c \<noteq> 0x2B" "c \<noteq> 0x2D" "c \<noteq> 0x78"
    "c \<noteq> 0x58" "c \<noteq> DOLLAR"
  using assms by (auto simp: is_dec_def is_digit_def dec_digit_props)

lemma decimal_rec:
  "decimal n
   = (if n < 10 then [dec_digit n] else decimal (n div 10) @ [dec_digit (n mod 10)])"
  by (subst decimal.simps) (simp add: dec_digit_def)

lemma dec_string_decimal: "dec_string (decimal n)"
proof (induction n rule: decimal.induct)
  case (1 n)
  show ?case
  proof (cases "n < 10")
    case True
    then show ?thesis by (subst decimal_rec) (auto simp: dec_string_def is_decI)
  next
    case False
    have "n mod 10 < 10" by simp
    with 1 False show ?thesis
      by (subst decimal_rec) (auto simp: dec_string_def is_decI)
  qed
qed

lemma digits_value_snoc:
  "digits_value R (z @ [c])
   = digits_value R z * R + (case digit_val R c of None \<Rightarrow> 0 | Some d \<Rightarrow> d)"
  by (simp add: digits_value_def)

lemma digits_value_decimal: "digits_value 10 (decimal n) = n"
proof (induction n rule: decimal.induct)
  case (1 n)
  show ?case
  proof (cases "n < 10")
    case True
    then show ?thesis
      by (subst decimal_rec) (simp add: digits_value_def dec_digit_props)
  next
    case False
    have "n mod 10 < 10" by simp
    with 1 False show ?thesis
      by (subst decimal_rec) (simp add: digits_value_snoc dec_digit_props)
  qed
qed

lemma parseInt_dec_string:
  assumes "dec_string s"
  shows "parseInt s = Num (int (digits_value 10 s))"
proof -
  from assms obtain c cs where s: "s = c # cs" by (cases s) (auto simp: dec_string_def)
  from assms have all: "\<And>x. x \<in> set s \<Longrightarrow> is_dec x"
    by (auto simp: dec_string_def list_all_iff)
  have dig: "\<And>x. x \<in> set s \<Longrightarrow> is_digit 10 x"
    using all by (simp add: is_dec_props)
  have d: "is_dec c" using all [of c] s by auto
  have dw: "dropWhile is_white s = s" using s d by (simp add: is_dec_props)
  have second: "cs = [] \<or> (\<exists>e es. cs = e # es \<and> e \<noteq> 0x78 \<and> e \<noteq> 0x58)"
  proof (cases cs)
    case Nil
    then show ?thesis by simp
  next
    case (Cons e es)
    then have "is_dec e" using all [of e] s by auto
    then show ?thesis using Cons by (simp add: is_dec_props)
  qed
  have nohex: "take 2 s \<noteq> js ''0x''" "take 2 s \<noteq> js ''0X''"
    using second s by (auto simp: js_lits)
  have tw: "takeWhile (is_digit 10) s = s" using dig by (simp add: takeWhile_eq_all_conv)
  have sgn: "c \<noteq> 0x2B" "c \<noteq> 0x2D" using d by (simp_all add: is_dec_props)
  show ?thesis
    unfolding parseInt_def dw Let_def
    using s sgn nohex tw by simp
qed

lemma parseInt_decimal: "parseInt (decimal n) = Num (int n)"
  by (simp add: parseInt_dec_string dec_string_decimal digits_value_decimal)

lemma decimal_no_dollar: "DOLLAR \<notin> set (decimal n)"
  using dec_string_decimal [of n]
  by (auto simp: dec_string_def list_all_iff dest: is_dec_props(7))

subsection \<open>Splitting\<close>

lemma split_from_no_sep: "sep \<notin> set a \<Longrightarrow> split_from sep piece a = [piece @ a]"
  by (induction a arbitrary: piece) auto

lemma split_from_sep:
  "sep \<notin> set a \<Longrightarrow>
   split_from sep piece (a @ sep # rest) = (piece @ a) # split_from sep [] rest"
  by (induction a arbitrary: piece) auto

lemma split_record:
  assumes "DOLLAR \<notin> set p0" "DOLLAR \<notin> set alg" "DOLLAR \<notin> set it" "DOLLAR \<notin> set S"
    "DOLLAR \<notin> set h"
  shows "split DOLLAR (p0 @ DOLLAR # alg @ DOLLAR # it @ DOLLAR # S @ DOLLAR # h)
         = [p0, alg, it, S, h]"
  using assms by (simp add: split_def split_from_sep split_from_no_sep)

lemma split_std_record:
  assumes "DOLLAR \<notin> set it" "DOLLAR \<notin> set S" "DOLLAR \<notin> set h"
  shows "split DOLLAR (js ''$pbkdf2$'' @ it @ js ''$'' @ S @ js ''$'' @ h)
         = [[], js ''pbkdf2'', it, S, h]"
proof -
  have "js ''$pbkdf2$'' @ it @ js ''$'' @ S @ js ''$'' @ h
        = [] @ DOLLAR # js ''pbkdf2'' @ DOLLAR # it @ DOLLAR # S @ DOLLAR # h"
    by (simp add: js_lits DOLLAR_def)
  then show ?thesis
    using assms pbkdf2_tag_no_dollar
    by (simp only: split_record list.set empty_iff not_False_eq_True)
qed

section \<open>Facts about the module\<close>

text \<open>What \<open>hashPassword\<close> returns, case by case of the iteration count.\<close>

lemma hashPassword_cases:
  "hashPassword P S N =
     (case N of
        NaN \<Rightarrow> Inl TypeError
      | Num n \<Rightarrow>
          if n < 0 \<or> 4294967295 < n then Inl TypeError
          else if n = 0 then Inl OperationError
          else Inr (digest P S (nat n)))"
  by (simp add: hashPassword_def importKey_def deriveBits_def digest_def hex_of_bytes_def
      split: number.split)

lemma hashPassword_Inr:
  "hashPassword P S N = Inr h \<Longrightarrow>
   \<exists>n. N = Num n \<and> 1 \<le> n \<and> n \<le> 4294967295 \<and> h = digest P S (nat n)"
  by (auto simp: hashPassword_cases split: number.splits if_splits)

lemma length_digest: "length (digest P S n) = 64"
  by (simp add: digest_def length_hex_of_bytes length_pbkdf2_32)


lemma digest_no_dollar: "DOLLAR \<notin> set (digest P S n)"
  by (simp add: digest_def hex_of_bytes_no_dollar)

lemma digest_password_nul:
  "digest (js ''password'' @ [0]) S n = digest (js ''password'') S n"
proof -
  have e: "encode (js ''password'') = [0x70, 0x61, 0x73, 0x73, 0x77, 0x6F, 0x72, 0x64]"
    "encode (js ''password'' @ [0]) = [0x70, 0x61, 0x73, 0x73, 0x77, 0x6F, 0x72, 0x64] @ [0]"
    by (simp_all add: js_def utf8_1_def)
  have "pbkdf2 ([0x70, 0x61, 0x73, 0x73, 0x77, 0x6F, 0x72, 0x64] @ [0]) (encode S) n 32
        = pbkdf2 [0x70, 0x61, 0x73, 0x73, 0x77, 0x6F, 0x72, 0x64] (encode S) n 32"
    by (rule pbkdf2_snoc_zero) simp
  then show ?thesis by (simp add: digest_def e)
qed

lemma digest_nul: "digest [0] S n = digest [] S n"
proof -
  have "pbkdf2 ([] @ [0]) (encode S) n 32 = pbkdf2 [] (encode S) n 32"
    by (rule pbkdf2_snoc_zero) simp
  then show ?thesis by (simp add: digest_def utf8_1_def)
qed

lemma generateSalt_16:
  "generateSalt 16 g = (Inr (hex_of_bytes (map g [0..<16])), (\<lambda>i. g (i + 16)))"
  by (simp add: generateSalt_def getRandomValues_def hex_of_bytes_def)

lemma createPasswordHash_eq:
  "createPasswordHash P g =
     (Inr (js ''$pbkdf2$'' @ decimal 100000 @ js ''$'' @ hex_of_bytes (map g [0..<16])
           @ js ''$'' @ digest P (hex_of_bytes (map g [0..<16])) 100000),
      (\<lambda>i. g (i + 16)))"
  by (simp add: createPasswordHash_def generateSalt_16 hashPassword_cases Let_def)

lemma decimal_100000: "decimal 100000 = js ''100000''"
  by (simp add: decimal.simps js_def)

lemma verifyPassword_parts:
  assumes "split DOLLAR R = [p0, js ''pbkdf2'', it, S, d]"
  shows "verifyPassword_try P R =
           (case hashPassword P S (parseInt it) of
              Inl e \<Rightarrow> Inl e
            | Inr c \<Rightarrow> Inr (c = d))"
  by (simp add: verifyPassword_try_def assms Let_def constantTimeCompare_eq split: sum.split)

lemma verifyPassword_std:
  assumes "DOLLAR \<notin> set it" "DOLLAR \<notin> set S" "DOLLAR \<notin> set h"
  shows "verifyPassword P (js ''$pbkdf2$'' @ it @ js ''$'' @ S @ js ''$'' @ h)
         = (hashPassword P S (parseInt it) = Inr h)"
  by (simp add: verifyPassword_def verifyPassword_parts [OF split_std_record [OF assms]]
      split: sum.split)

lemma verify_created:
  "verifyPassword Q (js ''$pbkdf2$'' @ decimal 100000 @ js ''$'' @ hex_of_bytes bs @ js ''$''
                     @ digest P (hex_of_bytes bs) 100000)
   = (digest Q (hex_of_bytes bs) 100000 = digest P (hex_of_bytes bs) 100000)"
  by (simp add: verifyPassword_std decimal_no_dollar hex_of_bytes_no_dollar digest_no_dollar
      parseInt_decimal hashPassword_cases)

section \<open>The claims\<close>

subsection \<open>C1: the pieces of a created record\<close>

text \<open>
  Claim C1 says that splitting the record of \<open>createPasswordHash\<close> on \<^verbatim>\<open>$\<close> yields exactly
  four fields. The record starts with a \<^verbatim>\<open>$\<close>, so the split has five pieces and the first
  one is empty: for the password \<^verbatim>\<open>Test123!@#\<close> and a random source of zero bytes the
  number of pieces is 5 and the first piece is the empty string.
\<close>

theorem createPasswordHash_four_fields_counterexample:
  "map_sum id (length \<circ> split DOLLAR)
     (fst (createPasswordHash (js ''Test123!@#'') zero_rng)) = Inr 5
   \<and> map_sum id (hd \<circ> split DOLLAR)
     (fst (createPasswordHash (js ''Test123!@#'') zero_rng)) = Inr []"
  by (simp add: createPasswordHash_eq split_std_record decimal_no_dollar
      hex_of_bytes_no_dollar digest_no_dollar)

text \<open>
  Claim C1, amended: for every password and every state of the random source,
  \<open>createPasswordHash\<close> succeeds; its record is \<^verbatim>\<open>$pbkdf2$100000$\<close>, the generated salt,
  \<^verbatim>\<open>$\<close> and the digest of \<open>hashPassword\<close>; and splitting the record on \<^verbatim>\<open>$\<close> always
  yields exactly five pieces in this order: the empty string, \<^verbatim>\<open>pbkdf2\<close>, \<^verbatim>\<open>100000\<close>, the
  salt (32 characters) and the digest (64 characters).
\<close>

theorem createPasswordHash_five_pieces:
  "\<exists>salt h. fst (generateSalt 16 g) = Inr salt
     \<and> hashPassword P salt (Num 100000) = Inr h
     \<and> fst (createPasswordHash P g) = Inr (js ''$pbkdf2$100000$'' @ salt @ js ''$'' @ h)
     \<and> split DOLLAR (js ''$pbkdf2$100000$'' @ salt @ js ''$'' @ h)
          = [[], js ''pbkdf2'', js ''100000'', salt, h]
     \<and> length salt = 32 \<and> length h = 64"
proof -
  have c: "js ''$pbkdf2$100000$'' @ x = js ''$pbkdf2$'' @ js ''100000'' @ js ''$'' @ x" for x
    by (simp add: js_def)
  have n: "DOLLAR \<notin> set (js ''100000'')" by (simp add: js_def DOLLAR_def)
  show ?thesis
    by (simp add: generateSalt_16 hashPassword_cases createPasswordHash_eq decimal_100000 c
        split_std_record n hex_of_bytes_no_dollar digest_no_dollar length_hex_of_bytes
        length_digest)
qed

theorem createPasswordHash_five_pieces_witness:
  "\<exists>salt h. fst (generateSalt 16 zero_rng) = Inr salt
     \<and> hashPassword (js ''Test123!@#'') salt (Num 100000) = Inr h
     \<and> fst (createPasswordHash (js ''Test123!@#'') zero_rng)
          = Inr (js ''$pbkdf2$100000$'' @ salt @ js ''$'' @ h)
     \<and> split DOLLAR (js ''$pbkdf2$100000$'' @ salt @ js ''$'' @ h)
          = [[], js ''pbkdf2'', js ''100000'', salt, h]
     \<and> length salt = 32 \<and> length h = 64"
  by (rule createPasswordHash_five_pieces)

subsection \<open>C2: round trip\<close>

text \<open>
  Claim C2: for every password \<open>P\<close> and whatever salt \<open>createPasswordHash\<close> draws (every
  state \<open>g\<close> of the random source), \<open>createPasswordHash P\<close> returns a record and
  \<open>verifyPassword P\<close> of that record is true.
\<close>

theorem verifyPassword_roundtrip:
  "\<exists>R. fst (createPasswordHash P g) = Inr R \<and> verifyPassword P R = True"
  by (simp add: createPasswordHash_eq verify_created)

theorem verifyPassword_roundtrip_witness:
  "\<exists>R. fst (createPasswordHash (js ''Test123!@#'') count_rng) = Inr R
     \<and> verifyPassword (js ''Test123!@#'') R = True"
  by (rule verifyPassword_roundtrip)

subsection \<open>C3: malformed records\<close>

text \<open>
  Claim C3 says that \<open>verifyPassword\<close> is false for every record whose iterations field is
  not a valid integer. \<^verbatim>\<open>parseInt\<close> reads the leading digits and ignores the rest: the
  field \<^verbatim>\<open>1x\<close> is not a decimal numeral, it is read as 1, and the record
  \<^verbatim>\<open>$pbkdf2$1x$salt$\<close> followed by the digest of \<^verbatim>\<open>password\<close> under one iteration
  verifies.
\<close>

theorem verifyPassword_lenient_iterations_counterexample:
  "\<not> decimal_numeral (js ''1x'')
   \<and> split DOLLAR (js ''$pbkdf2$1x$salt$'' @ digest (js ''password'') (js ''salt'') 1)
       = [[], js ''pbkdf2'', js ''1x'', js ''salt'', digest (js ''password'') (js ''salt'') 1]
   \<and> hashPassword (js ''password'') (js ''salt'') (Num 1)
       = Inr (digest (js ''password'') (js ''salt'') 1)
   \<and> verifyPassword (js ''password'')
        (js ''$pbkdf2$1x$salt$'' @ digest (js ''password'') (js ''salt'') 1) = True"
proof -
  have c: "js ''$pbkdf2$1x$salt$'' @ x
           = js ''$pbkdf2$'' @ js ''1x'' @ js ''$'' @ js ''salt'' @ js ''$'' @ x" for x
    by (simp add: js_def)
  have n: "DOLLAR \<notin> set (js ''1x'')" "DOLLAR \<notin> set (js ''salt'')"
    by (simp_all add: js_def DOLLAR_def)
  have p: "parseInt (js ''1x'') = Num 1"
    by (simp add: parseInt_def js_def is_white_def is_digit_def digit_val_def digits_value_def)
  have v: "\<not> decimal_numeral (js ''1x'')" by (simp add: decimal_numeral_def js_def)
  show ?thesis
    by (simp add: v c split_std_record verifyPassword_std n digest_no_dollar p
        hashPassword_cases)
qed

text \<open>
  Claim C3, amended: \<open>verifyPassword\<close> returns a boolean for every password and every
  stored string (the \<^verbatim>\<open>catch\<close> turns every exception of the body into false), and it
  returns false whenever the stored string does not split into exactly five
  \<^verbatim>\<open>$\<close>-delimited pieces, or its second piece is not \<^verbatim>\<open>pbkdf2\<close>, or \<^verbatim>\<open>parseInt\<close> of its
  third piece is \<^verbatim>\<open>NaN\<close> or an integer outside \<open>1 .. 4294967295\<close>. In these cases the body
  ends by returning false or by a \<^verbatim>\<open>TypeError\<close> or \<^verbatim>\<open>OperationError\<close> of the platform.
\<close>

theorem verifyPassword_malformed:
  assumes "length (split DOLLAR R) \<noteq> 5 \<or> split DOLLAR R ! 1 \<noteq> js ''pbkdf2''
           \<or> parseInt (split DOLLAR R ! 2) = NaN
           \<or> (\<exists>n. parseInt (split DOLLAR R ! 2) = Num n \<and> (n < 1 \<or> 4294967295 < n))"
  shows "verifyPassword P R = False
         \<and> verifyPassword_try P R \<in> {Inr False, Inl TypeError, Inl OperationError}"
proof -
  consider (count) "length (split DOLLAR R) \<noteq> 5"
    | (tag) "length (split DOLLAR R) = 5" "split DOLLAR R ! 1 \<noteq> js ''pbkdf2''"
    | (iter) "length (split DOLLAR R) = 5" "split DOLLAR R ! 1 = js ''pbkdf2''"
        "parseInt (split DOLLAR R ! 2) = NaN
         \<or> (\<exists>n. parseInt (split DOLLAR R ! 2) = Num n \<and> (n < 1 \<or> 4294967295 < n))"
    using assms by blast
  then show ?thesis
  proof cases
    case count
    then show ?thesis by (simp add: verifyPassword_def verifyPassword_try_def)
  next
    case tag
    then show ?thesis by (simp add: verifyPassword_def verifyPassword_try_def)
  next
    case iter
    from iter(3)
    have "hashPassword P (split DOLLAR R ! 3) (parseInt (split DOLLAR R ! 2))
            \<in> {Inl TypeError, Inl OperationError}"
      by (auto simp: hashPassword_cases split: if_splits)
    with iter(1,2) show ?thesis
      by (auto simp: verifyPassword_def verifyPassword_try_def Let_def)
  qed
qed

theorem verifyPassword_malformed_witness:
  "length (split DOLLAR (js ''not-a-valid-record'')) = 1
   \<and> verifyPassword (js ''Test123!@#'') (js ''not-a-valid-record'') = False
   \<and> parseInt (split DOLLAR (js ''$pbkdf2$abc$00$11'') ! 2) = NaN
   \<and> verifyPassword (js ''Test123!@#'') (js ''$pbkdf2$abc$00$11'') = False"
proof -
  have l: "length (split DOLLAR (js ''not-a-valid-record'')) = 1"
    by (simp add: split_def js_def DOLLAR_def)
  have s: "split DOLLAR (js ''$pbkdf2$abc$00$11'')
           = [[], js ''pbkdf2'', js ''abc'', js ''00'', js ''11'']"
    by (simp add: split_def js_def DOLLAR_def)
  have p: "parseInt (js ''abc'') = NaN"
    by (simp add: parseInt_def js_def is_white_def is_digit_def digit_val_def)
  show ?thesis
    using verifyPassword_malformed [of "js ''not-a-valid-record''" "js ''Test123!@#''"]
      verifyPassword_malformed [of "js ''$pbkdf2$abc$00$11''" "js ''Test123!@#''"]
    by (simp add: l s p)
qed

subsection \<open>C4: another password\<close>

text \<open>
  Claim C4 says that a password different from the registered one never verifies. The
  key derivation does not separate all passwords: HMAC fills a short key with zero
  bytes, so \<^verbatim>\<open>password\<close> followed by the character U+0000 derives the digest of
  \<^verbatim>\<open>password\<close> and verifies against its record.
\<close>

theorem verifyPassword_distinct_counterexample:
  "js ''password'' \<noteq> js ''password'' @ [0]
   \<and> map_sum id (verifyPassword (js ''password'' @ [0]))
        (fst (createPasswordHash (js ''password'') zero_rng)) = Inr True"
  by (simp add: createPasswordHash_eq verify_created digest_password_nul)

text \<open>
  Claim C4, amended: for all passwords \<open>P1\<close> and \<open>P2\<close> and every state of the random
  source, \<open>verifyPassword P2\<close> of the record created for \<open>P1\<close> is true exactly when
  \<open>hashPassword\<close> derives the same digest for \<open>P2\<close> as for \<open>P1\<close> under the record's salt
  and 100000 iterations; it is false whenever the two digests differ.
\<close>

theorem verifyPassword_other_password:
  "\<exists>salt h1 h2 R. fst (generateSalt 16 g) = Inr salt
     \<and> hashPassword P1 salt (Num 100000) = Inr h1
     \<and> hashPassword P2 salt (Num 100000) = Inr h2
     \<and> fst (createPasswordHash P1 g) = Inr R
     \<and> verifyPassword P2 R = (h2 = h1)"
  by (simp add: generateSalt_16 hashPassword_cases createPasswordHash_eq verify_created)

theorem verifyPassword_other_password_witness:
  "\<exists>salt h1 h2 R. fst (generateSalt 16 zero_rng) = Inr salt
     \<and> hashPassword (js ''Test123!@#'') salt (Num 100000) = Inr h1
     \<and> hashPassword (js ''test123!@#'') salt (Num 100000) = Inr h2
     \<and> fst (createPasswordHash (js ''Test123!@#'') zero_rng) = Inr R
     \<and> verifyPassword (js ''test123!@#'') R = (h2 = h1)"
  by (rule verifyPassword_other_password)

subsection \<open>C5: the empty password\<close>

text \<open>
  Claim C5 says that no non-empty password verifies against the record of the empty
  password. The one-character password U+0000 is not empty; its key is the zero byte,
  which HMAC fills up to the same block of zeros as the empty key, and it verifies.
\<close>

theorem verifyPassword_empty_counterexample:
  "([0] :: jsstring) \<noteq> []
   \<and> map_sum id (verifyPassword [0]) (fst (createPasswordHash [] zero_rng)) = Inr True"
  by (simp add: createPasswordHash_eq verify_created digest_nul)

text \<open>
  Claim C5, amended: \<open>createPasswordHash\<close> of the empty password succeeds and produces a
  record \<open>R\<close>; \<open>verifyPassword\<close> of the empty password and \<open>R\<close> is true; and for every
  password \<open>Q\<close>, \<open>verifyPassword Q R\<close> is true exactly when \<open>hashPassword\<close> gives \<open>Q\<close> the
  result it gives the empty password under the record's salt and 100000 iterations, so
  it is false for every \<open>Q\<close> whose digest differs.
\<close>

theorem verifyPassword_empty_password:
  "\<exists>salt R. fst (generateSalt 16 g) = Inr salt
     \<and> fst (createPasswordHash [] g) = Inr R
     \<and> verifyPassword [] R = True
     \<and> (\<forall>Q. verifyPassword Q R
              = (hashPassword Q salt (Num 100000) = hashPassword [] salt (Num 100000)))"
  by (simp add: generateSalt_16 hashPassword_cases createPasswordHash_eq verify_created)

theorem verifyPassword_empty_password_witness:
  "\<exists>salt R. fst (generateSalt 16 count_rng) = Inr salt
     \<and> fst (createPasswordHash [] count_rng) = Inr R
     \<and> verifyPassword [] R = True
     \<and> (\<forall>Q. verifyPassword Q R
              = (hashPassword Q salt (Num 100000) = hashPassword [] salt (Num 100000)))"
  by (rule verifyPassword_empty_password)

subsection \<open>C6: two records of one password\<close>

text \<open>
  Claim C6: for every password \<open>P\<close>, two calls of \<open>createPasswordHash P\<close> that draw
  distinct salts (the random source being in the states \<open>g\<close> and \<open>g'\<close>) both succeed and
  produce two different records, and \<open>verifyPassword P\<close> is true of either record.
\<close>

theorem createPasswordHash_distinct_salts:
  assumes "fst (generateSalt 16 g) \<noteq> fst (generateSalt 16 g')"
  shows "\<exists>R R'. fst (createPasswordHash P g) = Inr R \<and> fst (createPasswordHash P g') = Inr R'
           \<and> R \<noteq> R' \<and> verifyPassword P R = True \<and> verifyPassword P R' = True"
proof -
  have "hex_of_bytes (map g [0..<16]) \<noteq> hex_of_bytes (map g' [0..<16])"
    using assms by (simp add: generateSalt_16)
  moreover
  have "length (hex_of_bytes (map g [0..<16])) = length (hex_of_bytes (map g' [0..<16]))"
    by (simp add: length_hex_of_bytes)
  ultimately show ?thesis
    by (simp add: createPasswordHash_eq verify_created)
qed

text \<open>Two successive calls on the random source that counts 0, 1, 2, ...\<close>

theorem createPasswordHash_distinct_salts_witness:
  "fst (generateSalt 16 count_rng)
     \<noteq> fst (generateSalt 16 (snd (createPasswordHash (js ''Test123!@#'') count_rng)))
   \<and> (\<exists>R R'. fst (createPasswordHash (js ''Test123!@#'') count_rng) = Inr R
        \<and> fst (createPasswordHash (js ''Test123!@#'')
                 (snd (createPasswordHash (js ''Test123!@#'') count_rng))) = Inr R'
        \<and> R \<noteq> R' \<and> verifyPassword (js ''Test123!@#'') R = True
        \<and> verifyPassword (js ''Test123!@#'') R' = True)"
proof -
  have "map count_rng [0..<16] ! 0
        \<noteq> map (snd (createPasswordHash (js ''Test123!@#'') count_rng)) [0..<16] ! 0"
    by (simp add: createPasswordHash_eq count_rng_def)
  then have "map count_rng [0..<16]
             \<noteq> map (snd (createPasswordHash (js ''Test123!@#'') count_rng)) [0..<16]"
    by metis
  then have "hex_of_bytes (map count_rng [0..<16])
             \<noteq> hex_of_bytes (map (snd (createPasswordHash (js ''Test123!@#'') count_rng)) [0..<16])"
    using hex_of_bytes_inj by blast
  then have h: "fst (generateSalt 16 count_rng)
     \<noteq> fst (generateSalt 16 (snd (createPasswordHash (js ''Test123!@#'') count_rng)))"
    by (simp add: generateSalt_16)
  show ?thesis
    using h createPasswordHash_distinct_salts [OF h, of "js ''Test123!@#''"] by blast
qed

subsection \<open>C7: determinism of the derivation\<close>



subsection \<open>C8: the length of the digest\<close>




subsection \<open>C9: the iteration count of the record\<close>

text \<open>
  Claim C9: for every password \<open>P\<close>, salt \<open>S\<close> (free of \<^verbatim>\<open>$\<close>, as a well-formed record
  requires) and positive iteration count \<open>n\<close>, the record \<^verbatim>\<open>$pbkdf2$n$S$h\<close> whose digest
  \<open>h\<close> is the output of \<open>hashPassword P S n\<close> verifies for \<open>P\<close>; and for every password \<open>Q\<close>
  the verification of that record is decided by \<open>hashPassword Q S n\<close>, with the count \<open>n\<close>
  of the record and not the default \<open>100000\<close>.
\<close>

theorem verifyPassword_record_iterations:
  assumes "0 < n" "DOLLAR \<notin> set S" "hashPassword P S (Num n) = Inr h"
  shows "verifyPassword P (js ''$pbkdf2$'' @ decimal (nat n) @ js ''$'' @ S @ js ''$'' @ h) = True
         \<and> (\<forall>Q. verifyPassword Q (js ''$pbkdf2$'' @ decimal (nat n) @ js ''$'' @ S @ js ''$'' @ h)
                = (hashPassword Q S (Num n) = Inr h))"
proof -
  from assms(3) have h: "h = digest P S (nat n)" by (auto dest: hashPassword_Inr)
  have "DOLLAR \<notin> set h" by (simp add: h digest_no_dollar)
  then have "verifyPassword Q (js ''$pbkdf2$'' @ decimal (nat n) @ js ''$'' @ S @ js ''$'' @ h)
             = (hashPassword Q S (Num n) = Inr h)" for Q
    using assms(1,2) by (simp add: verifyPassword_std decimal_no_dollar parseInt_decimal)
  then show ?thesis using assms(3) by simp
qed

theorem verifyPassword_record_iterations_witness:
  "(0 :: int) < 250000 \<and> DOLLAR \<notin> set (js ''00ff'')
   \<and> hashPassword (js ''Test123!@#'') (js ''00ff'') (Num 250000)
        = Inr (digest (js ''Test123!@#'') (js ''00ff'') 250000)
   \<and> decimal 250000 = js ''250000''
   \<and> verifyPassword (js ''Test123!@#'')
        (js ''$pbkdf2$'' @ js ''250000'' @ js ''$'' @ js ''00ff'' @ js ''$''
         @ digest (js ''Test123!@#'') (js ''00ff'') 250000) = True"
proof -
  have a: "(0 :: int) < 250000" by simp
  have b: "DOLLAR \<notin> set (js ''00ff'')" by (simp add: js_def DOLLAR_def)
  have c: "hashPassword (js ''Test123!@#'') (js ''00ff'') (Num 250000)
        = Inr (digest (js ''Test123!@#'') (js ''00ff'') 250000)"
    by (simp add: hashPassword_cases)
  have d: "decimal 250000 = js ''250000''" by (simp add: decimal.simps js_def)
  show ?thesis using a b c d verifyPassword_record_iterations [OF a b c] by simp
qed

subsection \<open>C10: the comparison\<close>

text \<open>
  Claim C10: \<open>constantTimeCompare a b\<close> is true if and only if the strings \<open>a\<close> and \<open>b\<close> are
  equal, and it is false when their lengths differ (the first branch of the function,
  before the loop); consequently, for a record that splits into five pieces with the tag
  \<^verbatim>\<open>pbkdf2\<close> and whose salt and iteration count \<open>hashPassword\<close> accepts, \<open>verifyPassword\<close> is
  true exactly when the re-derived digest equals the stored digest piece.
\<close>

theorem constantTimeCompare_equal:
  "(constantTimeCompare a b = (a = b))
   \<and> (length a \<noteq> length b \<longrightarrow> constantTimeCompare a b = False)
   \<and> (split DOLLAR R = [p0, js ''pbkdf2'', it, S, d] \<and> hashPassword P S (parseInt it) = Inr c
        \<longrightarrow> verifyPassword P R = (c = d))"
  by (auto simp: constantTimeCompare_eq verifyPassword_def verifyPassword_parts)

theorem constantTimeCompare_equal_witness:
  "constantTimeCompare (js ''abc'') (js ''abc'') = True
   \<and> constantTimeCompare (js ''abc'') (js ''abd'') = False
   \<and> constantTimeCompare (js ''ab'') (js ''abc'') = False
   \<and> split DOLLAR (js ''$pbkdf2$7$00ff$'' @ digest (js ''pw'') (js ''00ff'') 7)
       = [[], js ''pbkdf2'', js ''7'', js ''00ff'', digest (js ''pw'') (js ''00ff'') 7]
   \<and> hashPassword (js ''pw'') (js ''00ff'') (parseInt (js ''7''))
       = Inr (digest (js ''pw'') (js ''00ff'') 7)
   \<and> verifyPassword (js ''pw'') (js ''$pbkdf2$7$00ff$'' @ digest (js ''pw'') (js ''00ff'') 7)
       = True"
proof -
  have c: "js ''$pbkdf2$7$00ff$'' @ x
           = js ''$pbkdf2$'' @ js ''7'' @ js ''$'' @ js ''00ff'' @ js ''$'' @ x" for x
    by (simp add: js_def)
  have n: "DOLLAR \<notin> set (js ''7'')" "DOLLAR \<notin> set (js ''00ff'')"
    by (simp_all add: js_def DOLLAR_def)
  have p: "parseInt (js ''7'') = Num 7"
    by (simp add: parseInt_def js_def is_white_def is_digit_def digit_val_def digits_value_def)
  have s: "split DOLLAR (js ''$pbkdf2$7$00ff$'' @ digest (js ''pw'') (js ''00ff'') 7)
       = [[], js ''pbkdf2'', js ''7'', js ''00ff'', digest (js ''pw'') (js ''00ff'') 7]"
    by (simp add: c split_std_record n digest_no_dollar)
  have h: "hashPassword (js ''pw'') (js ''00ff'') (parseInt (js ''7''))
           = Inr (digest (js ''pw'') (js ''00ff'') 7)"
    by (simp add: p hashPassword_cases)
  have e: "js ''abc'' \<noteq> js ''abd''" "length (js ''ab'') \<noteq> length (js ''abc'')"
    by (simp_all add: js_def)
  have t1: "constantTimeCompare (js ''abc'') (js ''abc'') = True"
    using constantTimeCompare_equal [of "js ''abc''" "js ''abc''"] by simp
  have t2: "constantTimeCompare (js ''abc'') (js ''abd'') = False"
    using constantTimeCompare_equal [of "js ''abc''" "js ''abd''"] e(1) by simp
  have t3: "constantTimeCompare (js ''ab'') (js ''abc'') = False"
    using constantTimeCompare_equal [of "js ''ab''" "js ''abc''"] e(2) by blast
  have t4: "verifyPassword (js ''pw'')
              (js ''$pbkdf2$7$00ff$'' @ digest (js ''pw'') (js ''00ff'') 7) = True"
    using constantTimeCompare_equal
      [where R = "js ''$pbkdf2$7$00ff$'' @ digest (js ''pw'') (js ''00ff'') 7"
         and ?p0.0 = "[]" and it = "js ''7''" and S = "js ''00ff''"
         and d = "digest (js ''pw'') (js ''00ff'') 7" and P = "js ''pw''"
         and c = "digest (js ''pw'') (js ''00ff'') 7"]
      s h
    by blast
  from t1 t2 t3 s h t4 show ?thesis by blast
qed

end
